theory Spec2Isabelle
  imports Main
begin

section \<open>Background tasks of Weblate (weblate/trans/tasks.py)\<close>

text \<open>
  A shallow embedding of the task functions of \<^verbatim>\<open>weblate/trans/tasks.py\<close>. Database
  tables are lists of records, a queryset is the list of rows it selects, an exception is
  a value of \<open>exc\<close>, and a call of \<^verbatim>\<open>task.delay(...)\<close> appends a task to a queue.
\<close>

subsection \<open>Time\<close>

text \<open>
  Points in time and durations are integers counting microseconds, the resolution of
  Python's \<^verbatim>\<open>datetime\<close> and \<^verbatim>\<open>timedelta\<close>. Only order and subtraction are used.
\<close>

type_synonym timestamp = int

definition timedelta_hours :: "int \<Rightarrow> int" where
  "timedelta_hours h = h * 3600000000"

definition timedelta_days :: "int \<Rightarrow> int" where
  "timedelta_days d = d * 86400000000"

definition seconds :: "int \<Rightarrow> int" where
  "seconds s = s * 1000000"

subsection \<open>Old suggestions and comments\<close>

text \<open>Rows of the Suggestion and the Comment table; both jobs read the timestamp only.\<close>

record suggestion =
  suggestion_id :: int
  suggestion_timestamp :: timestamp

record comment =
  comment_id :: int
  comment_timestamp :: timestamp

text \<open>
  A setting that holds a number of days or is unset (\<^verbatim>\<open>None\<close>). Python's
  \<^verbatim>\<open>not value\<close> is true for \<^verbatim>\<open>None\<close> and for \<^verbatim>\<open>0\<close>.
\<close>

definition py_not :: "int option \<Rightarrow> bool" where
  "py_not v = (case v of None \<Rightarrow> True | Some n \<Rightarrow> n = 0)"

text \<open>
  \<^verbatim>\<open>
  def cleanup_old_suggestions():
      if not settings.SUGGESTION_CLEANUP_DAYS:
          return
      cutoff = timezone.now() - timedelta(days=settings.SUGGESTION_CLEANUP_DAYS)
      Suggestion.objects.filter(timestamp__lt=cutoff).delete()
  \<close>
  The function takes the setting, the clock reading and the table, and returns the table.
\<close>

definition cleanup_old_suggestions ::
  "int option \<Rightarrow> timestamp \<Rightarrow> suggestion list \<Rightarrow> suggestion list" where
  "cleanup_old_suggestions SUGGESTION_CLEANUP_DAYS now suggestions =
     (if py_not SUGGESTION_CLEANUP_DAYS then suggestions
      else
        let cutoff = now - timedelta_days (the SUGGESTION_CLEANUP_DAYS)
        in filter (\<lambda>s. \<not> suggestion_timestamp s < cutoff) suggestions)"

definition cleanup_old_comments ::
  "int option \<Rightarrow> timestamp \<Rightarrow> comment list \<Rightarrow> comment list" where
  "cleanup_old_comments COMMENT_CLEANUP_DAYS now comments =
     (if py_not COMMENT_CLEANUP_DAYS then comments
      else
        let cutoff = now - timedelta_days (the COMMENT_CLEANUP_DAYS)
        in filter (\<lambda>c. \<not> comment_timestamp c < cutoff) comments)"

subsection \<open>Exceptions, tables and the task queue\<close>

text \<open>The Django models whose \<^verbatim>\<open>DoesNotExist\<close> exceptions the tasks can meet.\<close>

datatype model = ProjectModel | ComponentModel | UserModel

datatype exc = Timeout | FileParseError | DoesNotExist model | EmptyIndexError

text \<open>
  The rows of the Project, Component, Translation and Unit tables, with the columns and
  properties that the tasks read. \<open>last_changed\<close> is \<^verbatim>\<open>component.stats.last_changed\<close>
  (\<^verbatim>\<open>None\<close> when no change is recorded), \<open>needs_commit\<close>, \<open>count_missing\<close> and
  \<open>count_outgoing\<close> are what the methods of these names return for the component and its
  repository.
\<close>

record project =
  project_pk :: int
  project_slug :: string

record component =
  pk :: int
  slug :: string
  project :: int
  is_repo_link :: bool
  template :: string
  source_translation :: int
  commit_pending_age :: int
  last_changed :: "timestamp option"
  needs_commit :: bool
  count_missing :: int
  count_outgoing :: int

record translation =
  translation_pk :: int
  translation_component :: int

record unit_row =
  unit_pk :: int
  unit_translation :: int
  id_hash :: int

text \<open>
  Modelled from the spec: \<^verbatim>\<open>Component.objects.with_repo()\<close> is defined in the models
  module, which is not part of the sources at hand. The spec describes it as the
  components backed by a real upstream, excluding purely linked ones.
\<close>

definition with_repo :: "component list \<Rightarrow> component list" where
  "with_repo components = filter (\<lambda>c. \<not> is_repo_link c) components"

text \<open>Positional arguments handed on to a task, and the tasks that \<^verbatim>\<open>delay\<close> enqueues.\<close>

datatype pyarg = Str string | PyNone

datatype task =
    Perform_update string int bool
  | Perform_commit int "pyarg list"

fun task_target :: "task \<Rightarrow> int" where
  "task_target (Perform_update cls k auto) = k"
| "task_target (Perform_commit k args) = k"

fun reason_tag :: "task \<Rightarrow> string option" where
  "reason_tag (Perform_commit k (Str r # args)) = Some r"
| "reason_tag t = None"

subsection \<open>The commit-age scheduler\<close>

text \<open>
  \<^verbatim>\<open>Component.objects.filter(translation__pk__in=pks).distinct()\<close>: the join has one row
  per component and matching translation, and \<^verbatim>\<open>distinct\<close> removes the repeated rows.
\<close>

definition filter_translation_pk_in :: "int list \<Rightarrow> component list \<Rightarrow> translation list \<Rightarrow> component list" where
  "filter_translation_pk_in pks components translation_rows =
     concat (map (\<lambda>c. map (\<lambda>t. c)
       (filter (\<lambda>t. translation_component t = pk c \<and> translation_pk t \<in> set pks) translation_rows))
       components)"

definition commit_pending_components ::
  "int list option \<Rightarrow> component list \<Rightarrow> translation list \<Rightarrow> component list" where
  "commit_pending_components pks components translation_rows =
     (case pks of
        None \<Rightarrow> components
      | Some ks \<Rightarrow> remdups (filter_translation_pk_in ks components translation_rows))"

text \<open>
  \<^verbatim>\<open>
  for component in components.prefetch():
      if hours is None:
          age = timezone.now() - timedelta(hours=component.commit_pending_age)
      else:
          age = timezone.now() - timedelta(hours=hours)
      last_change = component.stats.last_changed
      if not last_change:
          continue
      if last_change > age:
          continue
      if not component.needs_commit():
          continue
      if logger:
          logger("Committing {0}".format(component))
      perform_commit.delay(component.pk, "commit_pending", None)
  \<close>
  The clock is read once in every iteration: \<open>clock i\<close> is the reading of iteration \<open>i\<close>.
  The state of the loop is the list of tasks enqueued so far and the list of components
  that the logger, when one is given, was called for.
\<close>

fun commit_pending_loop ::
  "int option \<Rightarrow> bool \<Rightarrow> (nat \<Rightarrow> timestamp) \<Rightarrow> nat \<Rightarrow> component list \<Rightarrow>
     task list \<times> int list \<Rightarrow> task list \<times> int list" where
  "commit_pending_loop hours logger clock i [] st = st"
| "commit_pending_loop hours logger clock i (c # cs) (queue, logged) =
     (let age = (case hours of
                   None \<Rightarrow> clock i - timedelta_hours (commit_pending_age c)
                 | Some h \<Rightarrow> clock i - timedelta_hours h)
      in case last_changed c of
           None \<Rightarrow> commit_pending_loop hours logger clock (Suc i) cs (queue, logged)
         | Some last_change \<Rightarrow>
             if last_change > age
             then commit_pending_loop hours logger clock (Suc i) cs (queue, logged)
             else if \<not> needs_commit c
             then commit_pending_loop hours logger clock (Suc i) cs (queue, logged)
             else commit_pending_loop hours logger clock (Suc i) cs
                    (queue @ [Perform_commit (pk c) [Str ''commit_pending'', PyNone]],
                     if logger then logged @ [pk c] else logged))"

definition commit_pending ::
  "int option \<Rightarrow> int list option \<Rightarrow> bool \<Rightarrow> (nat \<Rightarrow> timestamp) \<Rightarrow>
     component list \<Rightarrow> translation list \<Rightarrow> task list \<times> int list" where
  "commit_pending hours pks logger clock components translation_rows =
     commit_pending_loop hours logger clock 0
       (commit_pending_components pks components translation_rows) ([], [])"

text \<open>
  The condition of the claims, in their words: a change is recorded, the time elapsed
  since then is at least the threshold (the uniform one when given, the component's own
  otherwise), and there is something to commit.
\<close>

definition threshold_hours :: "int option \<Rightarrow> component \<Rightarrow> int" where
  "threshold_hours hours c = (case hours of None \<Rightarrow> commit_pending_age c | Some h \<Rightarrow> h)"

definition eligible :: "int option \<Rightarrow> timestamp \<Rightarrow> component \<Rightarrow> bool" where
  "eligible hours now c =
     (case last_changed c of
        None \<Rightarrow> False
      | Some t \<Rightarrow> now - t \<ge> timedelta_hours (threshold_hours hours c) \<and> needs_commit c)"

text \<open>The eligible components of a scan that starts at iteration \<open>i\<close>, in scan order.\<close>

fun eligible_from ::
  "int option \<Rightarrow> (nat \<Rightarrow> timestamp) \<Rightarrow> nat \<Rightarrow> component list \<Rightarrow> component list" where
  "eligible_from hours clock i [] = []"
| "eligible_from hours clock i (c # cs) =
     (if eligible hours (clock i) c then c # eligible_from hours clock (Suc i) cs
      else eligible_from hours clock (Suc i) cs)"

subsection \<open>Sample data\<close>

text \<open>
  A project with two components: \<open>core\<close> has uncommitted changes and eleven missing
  commits, \<open>docs\<close> has nothing to commit, nine missing and twelve outgoing commits.
  \<open>core\<close> has two translation rows, \<open>docs\<close> one.
\<close>

definition acme :: project where
  "acme = \<lparr>project_pk = 1, project_slug = ''acme''\<rparr>"

definition core :: component where
  "core = \<lparr>pk = 1, slug = ''core'', project = 1, is_repo_link = False, template = '''',
            source_translation = 10, commit_pending_age = 24, last_changed = Some 0,
            needs_commit = True, count_missing = 11, count_outgoing = 0\<rparr>"

definition docs :: component where
  "docs = \<lparr>pk = 2, slug = ''docs'', project = 1, is_repo_link = False, template = '''',
            source_translation = 20, commit_pending_age = 24, last_changed = Some 0,
            needs_commit = False, count_missing = 9, count_outgoing = 12\<rparr>"

definition core_translation_rows :: "translation list" where
  "core_translation_rows =
     [\<lparr>translation_pk = 10, translation_component = 1\<rparr>,
      \<lparr>translation_pk = 11, translation_component = 1\<rparr>,
      \<lparr>translation_pk = 20, translation_component = 2\<rparr>]"

subsection \<open>The alert engine\<close>

text \<open>
  Modelled from the spec: \<^verbatim>\<open>add_alert\<close> and \<^verbatim>\<open>delete_alert\<close> are methods of the
  Component model, which is not part of the sources at hand. The spec gives an alert as a
  name attached to a repository that is active or inactive, changed by add-if-absent and
  remove-if-present. The store is the set of the active (component, name) pairs.
\<close>

type_synonym alerts = "(int \<times> string) set"

definition add_alert :: "component \<Rightarrow> string \<Rightarrow> alerts \<Rightarrow> alerts" where
  "add_alert c name store = insert (pk c, name) store"

definition delete_alert :: "component \<Rightarrow> string \<Rightarrow> alerts \<Rightarrow> alerts" where
  "delete_alert c name store = store - {(pk c, name)}"

text \<open>
  \<^verbatim>\<open>
  def repository_alerts(threshold=10):
      non_linked = Component.objects.with_repo()
      for component in non_linked.iterator():
          if component.repository.count_missing() > threshold:
              component.add_alert("RepositoryOutdated")
          else:
              component.delete_alert("RepositoryOutdated")
          if component.repository.count_outgoing() > threshold:
              component.add_alert("RepositoryChanges")
          else:
              component.delete_alert("RepositoryChanges")
  \<close>
\<close>

definition repository_alerts_step :: "int \<Rightarrow> component \<Rightarrow> alerts \<Rightarrow> alerts" where
  "repository_alerts_step threshold c store =
     (let store1 = (if count_missing c > threshold
                    then add_alert c ''RepositoryOutdated'' store
                    else delete_alert c ''RepositoryOutdated'' store)
      in if count_outgoing c > threshold
         then add_alert c ''RepositoryChanges'' store1
         else delete_alert c ''RepositoryChanges'' store1)"

fun repository_alerts_loop :: "int \<Rightarrow> component list \<Rightarrow> alerts \<Rightarrow> alerts" where
  "repository_alerts_loop threshold [] store = store"
| "repository_alerts_loop threshold (c # cs) store =
     repository_alerts_loop threshold cs (repository_alerts_step threshold c store)"

definition repository_alerts :: "int \<Rightarrow> component list \<Rightarrow> alerts \<Rightarrow> alerts" where
  "repository_alerts threshold components store =
     repository_alerts_loop threshold (with_repo components) store"

text \<open>The call without an argument takes the default of the parameter.\<close>

definition repository_alerts_default :: "component list \<Rightarrow> alerts \<Rightarrow> alerts" where
  "repository_alerts_default components store = repository_alerts 10 components store"

subsection \<open>Lookups by primary key\<close>

text \<open>
  \<^verbatim>\<open>Model.objects.get(pk=pk)\<close> returns the row or raises the model's
  \<^verbatim>\<open>DoesNotExist\<close>.
\<close>

definition get_project :: "project list \<Rightarrow> int \<Rightarrow> exc + project" where
  "get_project projects k =
     (case find (\<lambda>p. project_pk p = k) projects of
        None \<Rightarrow> Inl (DoesNotExist ProjectModel)
      | Some p \<Rightarrow> Inr p)"

definition get_component :: "component list \<Rightarrow> int \<Rightarrow> exc + component" where
  "get_component components k =
     (case find (\<lambda>c. pk c = k) components of
        None \<Rightarrow> Inl (DoesNotExist ComponentModel)
      | Some c \<Rightarrow> Inr c)"

definition get_user :: "int list \<Rightarrow> int \<Rightarrow> exc + int" where
  "get_user users uid =
     (if uid \<in> set users then Inr uid else Inl (DoesNotExist UserModel))"

subsection \<open>The tasks of the sync pipeline\<close>

text \<open>
  The methods of a project or component that the tasks call are outside this module. A
  task is modelled by the list of the calls it makes and the exception that leaves it, if
  any; what a call raises is given by the environment \<open>raises\<close>.
\<close>

datatype call =
    Do_update model int
  | Update_remote_branch model int
  | Create_translations int "pyarg list"
  | Commit_pending int "pyarg list"

text \<open>The values that \<^verbatim>\<open>settings.AUTO_UPDATE\<close> takes: a string or a truth value.\<close>

datatype setting = SStr string | SBool bool

text \<open>
  \<^verbatim>\<open>
  def perform_update(cls, pk, auto=False):
      try:
          if cls == "Project":
              obj = Project.objects.get(pk=pk)
          else:
              obj = Component.objects.get(pk=pk)
          if settings.AUTO_UPDATE in ("full", True) or not auto:
              obj.do_update()
          else:
              obj.update_remote_branch()
      except FileParseError:
          # This is stored as alert, so we can silently ignore here
          return
  \<close>
\<close>

definition except_FileParseError :: "call list \<times> exc option \<Rightarrow> call list \<times> exc option" where
  "except_FileParseError r =
     (case r of (calls, raised) \<Rightarrow>
        (calls, if raised = Some FileParseError then None else raised))"

definition perform_update ::
  "setting \<Rightarrow> (call \<Rightarrow> exc option) \<Rightarrow> project list \<Rightarrow> component list \<Rightarrow>
     string \<Rightarrow> int \<Rightarrow> bool \<Rightarrow> call list \<times> exc option" where
  "perform_update AUTO_UPDATE raises projects components cls k auto =
     except_FileParseError
       (case (if cls = ''Project''
              then map_sum id (\<lambda>p. (ProjectModel, project_pk p)) (get_project projects k)
              else map_sum id (\<lambda>c. (ComponentModel, pk c)) (get_component components k)) of
          Inl e \<Rightarrow> ([], Some e)
        | Inr (m, obj) \<Rightarrow>
            if AUTO_UPDATE \<in> set [SStr ''full'', SBool True] \<or> \<not> auto
            then ([Do_update m obj], raises (Do_update m obj))
            else ([Update_remote_branch m obj], raises (Update_remote_branch m obj)))"

text \<open>
  \<^verbatim>\<open>
  def perform_load(pk, *args):
      component = Component.objects.get(pk=pk)
      component.create_translations(*args)

  def perform_commit(pk, *args):
      component = Component.objects.get(pk=pk)
      component.commit_pending(*args)
  \<close>
\<close>

definition perform_load ::
  "(call \<Rightarrow> exc option) \<Rightarrow> component list \<Rightarrow> int \<Rightarrow> pyarg list \<Rightarrow> call list \<times> exc option" where
  "perform_load raises components k args =
     (case get_component components k of
        Inl e \<Rightarrow> ([], Some e)
      | Inr c \<Rightarrow> ([Create_translations (pk c) args], raises (Create_translations (pk c) args)))"

definition perform_commit ::
  "(call \<Rightarrow> exc option) \<Rightarrow> component list \<Rightarrow> int \<Rightarrow> pyarg list \<Rightarrow> call list \<times> exc option" where
  "perform_commit raises components k args =
     (case get_component components k of
        Inl e \<Rightarrow> ([], Some e)
      | Inr c \<Rightarrow> ([Commit_pending (pk c) args], raises (Commit_pending (pk c) args)))"

text \<open>
  \<^verbatim>\<open>
  def update_remotes():
      non_linked = Component.objects.with_repo()
      if settings.AUTO_UPDATE not in ("full", "remote", True, False):
          return
      for component in non_linked.iterator():
          perform_update.delay("Component", component.pk, auto=True)
  \<close>
  The result is the list of the tasks enqueued.
\<close>

definition update_remotes :: "setting \<Rightarrow> component list \<Rightarrow> task list" where
  "update_remotes AUTO_UPDATE components =
     (let non_linked = with_repo components
      in if AUTO_UPDATE \<notin> set [SStr ''full'', SStr ''remote'', SBool True, SBool False]
         then []
         else map (\<lambda>c. Perform_update ''Component'' (pk c) True) non_linked)"

text \<open>
  The three modes of the spec, by the documented values of the setting: \<^verbatim>\<open>"full"\<close> or
  \<^verbatim>\<open>True\<close> is full, \<^verbatim>\<open>"remote"\<close> or \<^verbatim>\<open>False\<close> is remote-only, every other value
  (such as \<^verbatim>\<open>"none"\<close>) is disabled. This definition follows the spec, not the code.
\<close>

datatype auto_update_mode = Full | RemoteOnly | Disabled

fun spec_auto_update_mode :: "setting \<Rightarrow> auto_update_mode" where
  "spec_auto_update_mode (SStr s) =
     (if s = ''full'' then Full else if s = ''remote'' then RemoteOnly else Disabled)"
| "spec_auto_update_mode (SBool b) = (if b then Full else RemoteOnly)"

subsection \<open>Removal and cleanup tasks\<close>

text \<open>
  \<^verbatim>\<open>
  def cleanup_sources(project):
      for component in project.component_set.filter(template="").iterator():
          with transaction.atomic():
              translation = component.source_translation
              source_ids = (
                  Unit.objects.filter(translation__component=component)
                  .exclude(translation=translation)
                  .values_list("id_hash", flat=True)
                  .distinct()
              )
              translation.unit_set.exclude(id_hash__in=source_ids).delete()
  \<close>
\<close>

definition source_ids :: "component \<Rightarrow> translation list \<Rightarrow> unit_row list \<Rightarrow> int list" where
  "source_ids c translation_rows units =
     remdups (map id_hash
       (filter (\<lambda>u.
          (\<exists>t \<in> set translation_rows.
             translation_pk t = unit_translation u \<and> translation_component t = pk c) \<and>
          unit_translation u \<noteq> source_translation c) units))"

fun cleanup_sources_loop :: "component list \<Rightarrow> translation list \<Rightarrow> unit_row list \<Rightarrow> unit_row list" where
  "cleanup_sources_loop [] translation_rows units = units"
| "cleanup_sources_loop (c # cs) translation_rows units =
     cleanup_sources_loop cs translation_rows
       (filter (\<lambda>u. \<not> (unit_translation u = source_translation c \<and>
                        id_hash u \<notin> set (source_ids c translation_rows units))) units)"

definition cleanup_sources ::
  "project \<Rightarrow> component list \<Rightarrow> translation list \<Rightarrow> unit_row list \<Rightarrow> unit_row list" where
  "cleanup_sources p components translation_rows units =
     cleanup_sources_loop
       (filter (\<lambda>c. project c = project_pk p \<and> template c = '''') components)
       translation_rows units"

text \<open>
  \<^verbatim>\<open>
  def cleanup_project(pk):
      try:
          project = Project.objects.get(pk=pk)
      except Project.DoesNotExist:
          return
      cleanup_sources(project)
  \<close>
  The result is the Unit table and the exception that leaves the task, if any.
\<close>

definition cleanup_project ::
  "project list \<Rightarrow> component list \<Rightarrow> translation list \<Rightarrow> unit_row list \<Rightarrow> int \<Rightarrow>
     unit_row list \<times> exc option" where
  "cleanup_project projects components translation_rows units k =
     (case get_project projects k of
        Inl e \<Rightarrow> if e = DoesNotExist ProjectModel then (units, None) else (units, Some e)
      | Inr p \<Rightarrow> (cleanup_sources p components translation_rows units, None))"

text \<open>
  \<^verbatim>\<open>
  def component_removal(pk, uid):
      user = User.objects.get(pk=uid)
      try:
          obj = Component.objects.get(pk=pk)
          Change.objects.create(
              project=obj.project,
              action=Change.ACTION_REMOVE_COMPONENT,
              target=obj.slug,
              user=user,
              author=user,
          )
          obj.delete()
      except Project.DoesNotExist:
          return
  \<close>
  The handler names the \<^verbatim>\<open>DoesNotExist\<close> of Project, so the one of Component passes
  through it. The state is the Component table and the Change table; a change row holds
  the project, the target slug and the user.
\<close>

type_synonym change = "int \<times> string \<times> int"

definition component_removal ::
  "int list \<Rightarrow> project list \<Rightarrow> component list \<Rightarrow> change list \<Rightarrow> int \<Rightarrow> int \<Rightarrow>
     (component list \<times> change list) \<times> exc option" where
  "component_removal users projects components changes k uid =
     (case get_user users uid of
        Inl e \<Rightarrow> ((components, changes), Some e)
      | Inr user \<Rightarrow>
          (case (case get_component components k of
                   Inl e \<Rightarrow> Inl e
                 | Inr obj \<Rightarrow>
                     (case get_project projects (project obj) of
                        Inl e \<Rightarrow> Inl e
                      | Inr p \<Rightarrow>
                          Inr (filter (\<lambda>c. pk c \<noteq> pk obj) components,
                               changes @ [(project_pk p, slug obj, user)]))) of
             Inl e \<Rightarrow>
               if e = DoesNotExist ProjectModel then ((components, changes), None)
               else ((components, changes), Some e)
           | Inr st \<Rightarrow> (st, None)))"

subsection \<open>The task executor\<close>

text \<open>
  The options of the decorator that \<open>perform_update\<close>, \<open>perform_load\<close>, \<open>perform_commit\<close>,
  \<open>perform_push\<close> and \<open>commit_pending\<close> share:
  \<^verbatim>\<open>autoretry_for=(Timeout,), retry_backoff=600, retry_backoff_max=3600\<close>.
\<close>

definition autoretry_for :: "exc list" where
  "autoretry_for = [Timeout]"

definition retry_backoff :: nat where
  "retry_backoff = 600"

definition retry_backoff_max :: nat where
  "retry_backoff_max = 3600"

text \<open>
  Modelled from the spec: the executor that runs a task and reschedules it is the task
  queue library, which is not part of the sources at hand. The spec has a task end as
  done, retrying or failed; a failure of a transient class is rescheduled, whatever the
  number of attempts so far, with a delay that starts at the backoff factor, doubles with
  every retry and is capped at the maximum; any other failure is not retried. Jitter is
  left open by the spec and is not modelled.
\<close>

datatype task_state = Done | Retrying nat | Failed exc

definition get_exponential_backoff_interval :: "nat \<Rightarrow> nat \<Rightarrow> nat \<Rightarrow> nat" where
  "get_exponential_backoff_interval factor retries maximum = min maximum (factor * 2 ^ retries)"

definition retry_delay :: "nat \<Rightarrow> nat" where
  "retry_delay retries = get_exponential_backoff_interval retry_backoff retries retry_backoff_max"

definition run_task :: "nat \<Rightarrow> exc option \<Rightarrow> task_state" where
  "run_task retries raised =
     (case raised of
        None \<Rightarrow> Done
      | Some e \<Rightarrow> if e \<in> set autoretry_for then Retrying (retry_delay retries) else Failed e)"

subsection \<open>The fulltext index\<close>

text \<open>
  The index has one partition for every language code and one for the source strings
  (\<open>None\<close>). A partition that was never built has no reader: opening it raises
  \<^verbatim>\<open>EmptyIndexError\<close>. A built partition holds its stored entries, of which the task
  reads the field \<^verbatim>\<open>pk\<close> only.
\<close>

type_synonym fulltext = "string option \<Rightarrow> int list option"

definition all_stored_fields :: "fulltext \<Rightarrow> string option \<Rightarrow> exc + int list" where
  "all_stored_fields ft lang =
     (case ft lang of None \<Rightarrow> Inl EmptyIndexError | Some entries \<Rightarrow> Inr entries)"

text \<open>
  Modelled from the spec: \<^verbatim>\<open>Fulltext.clean_search_unit\<close> is defined in the search
  module, which is not part of the sources at hand. The spec gives it as
  \<^verbatim>\<open>remove_entry(unit_id, language)\<close>: the entries of the unit leave the partition of
  the language.
\<close>

definition clean_search_unit :: "int \<Rightarrow> string option \<Rightarrow> fulltext \<Rightarrow> fulltext" where
  "clean_search_unit k lang ft =
     (case ft lang of
        None \<Rightarrow> ft
      | Some entries \<Rightarrow> ft(lang := Some (filter (\<lambda>e. e \<noteq> k) entries)))"

text \<open>
  \<^verbatim>\<open>
  def cleanup_fulltext():
      fulltext = Fulltext()
      languages = list(Language.objects.values_list("code", flat=True)) + [None]
      for lang in languages:
          if lang is None:
              index = fulltext.get_source_index()
          else:
              index = fulltext.get_target_index(lang)
          try:
              fields = index.reader().all_stored_fields()
          except EmptyIndexError:
              continue
          for item in fields:
              if Unit.objects.filter(pk=item["pk"]).exists():
                  continue
              fulltext.clean_search_unit(item["pk"], lang)
  \<close>
  The reader is a snapshot of the partition taken before the inner loop; \<open>stored\<close> is the list
  that \<^verbatim>\<open>fields\<close> runs through.
\<close>

definition unit_exists :: "unit_row list \<Rightarrow> int \<Rightarrow> bool" where
  "unit_exists units k = (\<exists>u \<in> set units. unit_pk u = k)"

fun cleanup_fulltext_items ::
  "unit_row list \<Rightarrow> string option \<Rightarrow> int list \<Rightarrow> fulltext \<Rightarrow> fulltext" where
  "cleanup_fulltext_items units lang [] ft = ft"
| "cleanup_fulltext_items units lang (item # stored) ft =
     (if unit_exists units item then cleanup_fulltext_items units lang stored ft
      else cleanup_fulltext_items units lang stored (clean_search_unit item lang ft))"

fun cleanup_fulltext_languages ::
  "unit_row list \<Rightarrow> string option list \<Rightarrow> fulltext \<Rightarrow> fulltext" where
  "cleanup_fulltext_languages units [] ft = ft"
| "cleanup_fulltext_languages units (lang # languages) ft =
     (case all_stored_fields ft lang of
        Inl e \<Rightarrow> cleanup_fulltext_languages units languages ft
      | Inr stored \<Rightarrow>
          cleanup_fulltext_languages units languages
            (cleanup_fulltext_items units lang stored ft))"

definition cleanup_fulltext :: "string list \<Rightarrow> unit_row list \<Rightarrow> fulltext \<Rightarrow> fulltext" where
  "cleanup_fulltext language_codes units ft =
     cleanup_fulltext_languages units (map Some language_codes @ [None]) ft"

text \<open>An index for the examples: Czech and source partitions built, German never built.\<close>

definition sample_index :: fulltext where
  "sample_index = (\<lambda>lang. None)(Some ''cs'' := Some [1, 2, 3], None := Some [1, 2])"

definition sample_units :: "unit_row list" where
  "sample_units =
     [\<lparr>unit_pk = 1, unit_translation = 10, id_hash = 100\<rparr>,
      \<lparr>unit_pk = 3, unit_translation = 10, id_hash = 300\<rparr>]"

subsection \<open>The stale checkout reaper\<close>

text \<open>
  Paths are POSIX strings. \<^verbatim>\<open>os.path.join\<close> of two parts puts a separator between them
  unless the first part is empty or ends in one, and restarts at an absolute second part;
  \<^verbatim>\<open>os.path.split\<close> cuts after the last separator and strips the separators that end
  the head unless the head consists of separators only.
\<close>

definition os_path_join :: "string \<Rightarrow> string \<Rightarrow> string" where
  "os_path_join a b =
     (if b \<noteq> [] \<and> hd b = CHR ''/'' then b
      else if a = [] \<or> last a = CHR ''/'' then a @ b
      else a @ ''/'' @ b)"

definition os_path_split :: "string \<Rightarrow> string \<times> string" where
  "os_path_split p =
     (let tail = rev (takeWhile (\<lambda>c. c \<noteq> CHR ''/'') (rev p));
          head = take (length p - length tail) p
      in (if head \<noteq> [] \<and> head \<noteq> replicate (length head) (CHR ''/'')
          then rev (dropWhile (\<lambda>c. c = CHR ''/'') (rev head))
          else head,
          tail))"

text \<open>
  The entries two levels below the directory of the checkouts, as
  \<^verbatim>\<open>glob(os.path.join(prefix, "*", "*"))\<close> lists them: each has the names of its two
  levels, is a directory or not, has a modification time and may hold read-only files.
\<close>

record fs_entry =
  project_dir :: string
  component_dir :: string
  is_dir :: bool
  mtime :: timestamp
  read_only :: bool

definition entry_path :: "string \<Rightarrow> fs_entry \<Rightarrow> string" where
  "entry_path prefix e = os_path_join (os_path_join prefix (project_dir e)) (component_dir e)"

definition glob_vcs :: "string \<Rightarrow> fs_entry list \<Rightarrow> string list" where
  "glob_vcs prefix fs = map (entry_path prefix) fs"

text \<open>
  Modelled from the spec: the error handler \<^verbatim>\<open>remove_readonly\<close> is defined in the files
  module, which is not part of the sources at hand. The spec has the removal clear
  read-only permissions and go on instead of failing, so \<^verbatim>\<open>rmtree\<close> with this handler
  removes the tree at the path whether or not it holds read-only files.
\<close>

definition rmtree_remove_readonly :: "string \<Rightarrow> string \<Rightarrow> fs_entry list \<Rightarrow> fs_entry list" where
  "rmtree_remove_readonly prefix path fs = filter (\<lambda>e. entry_path prefix e \<noteq> path) fs"

text \<open>
  \<^verbatim>\<open>
  def cleanup_stale_repos():
      prefix = data_dir("vcs")
      vcs_mask = os.path.join(prefix, "*", "*")
      yesterday = time() - 86400
      for path in glob(vcs_mask):
          if not os.path.isdir(path):
              continue
          # Skip recently modified paths
          if os.path.getmtime(path) > yesterday:
              continue
          # Parse path
          project, component = os.path.split(path[len(prefix) + 1 :])
          # Find matching components
          objects = Component.objects.with_repo().filter(
              slug=component, project__slug=project
          )
          # Remove stale dirs
          if not objects.exists():
              rmtree(path, onerror=remove_readonly)
  \<close>
  The directory of the checkouts and the reading of the clock are parameters; the result
  is the list of the entries that are left.
\<close>

definition matching_components ::
  "project list \<Rightarrow> component list \<Rightarrow> string \<Rightarrow> string \<Rightarrow> component list" where
  "matching_components projects components project_name component_name =
     filter (\<lambda>c. slug c = component_name \<and>
                 (\<exists>p \<in> set projects. project_pk p = project c \<and> project_slug p = project_name))
       (with_repo components)"

fun cleanup_stale_repos_loop ::
  "string \<Rightarrow> timestamp \<Rightarrow> project list \<Rightarrow> component list \<Rightarrow> string list \<Rightarrow>
     fs_entry list \<Rightarrow> fs_entry list" where
  "cleanup_stale_repos_loop prefix yesterday projects components [] fs = fs"
| "cleanup_stale_repos_loop prefix yesterday projects components (path # paths) fs =
     (case find (\<lambda>e. entry_path prefix e = path) fs of
        None \<Rightarrow> cleanup_stale_repos_loop prefix yesterday projects components paths fs
      | Some e \<Rightarrow>
          if \<not> is_dir e
          then cleanup_stale_repos_loop prefix yesterday projects components paths fs
          else if mtime e > yesterday
          then cleanup_stale_repos_loop prefix yesterday projects components paths fs
          else
            (case os_path_split (drop (length prefix + 1) path) of
               (project_name, component_name) \<Rightarrow>
                 if matching_components projects components project_name component_name = []
                 then cleanup_stale_repos_loop prefix yesterday projects components paths
                        (rmtree_remove_readonly prefix path fs)
                 else cleanup_stale_repos_loop prefix yesterday projects components paths fs))"

definition cleanup_stale_repos ::
  "string \<Rightarrow> timestamp \<Rightarrow> project list \<Rightarrow> component list \<Rightarrow> fs_entry list \<Rightarrow> fs_entry list" where
  "cleanup_stale_repos prefix now projects components fs =
     (let yesterday = now - seconds 86400
      in cleanup_stale_repos_loop prefix yesterday projects components (glob_vcs prefix fs) fs)"

text \<open>
  A name that \<^verbatim>\<open>*\<close> can match is not empty and holds no separator; the directory of
  the checkouts is not empty and does not end in a separator.
\<close>

definition valid_name :: "string \<Rightarrow> bool" where
  "valid_name s = (s \<noteq> [] \<and> CHR ''/'' \<notin> set s)"

definition valid_prefix :: "string \<Rightarrow> bool" where
  "valid_prefix s = (s \<noteq> [] \<and> last s \<noteq> CHR ''/'')"

definition valid_entry :: "fs_entry \<Rightarrow> bool" where
  "valid_entry e = (valid_name (project_dir e) \<and> valid_name (component_dir e))"

text \<open>The condition under which the loop removes an entry.\<close>

definition stale :: "timestamp \<Rightarrow> project list \<Rightarrow> component list \<Rightarrow> fs_entry \<Rightarrow> bool" where
  "stale now projects components e =
     (is_dir e \<and> now - mtime e \<ge> seconds 86400 \<and>
      \<not> (\<exists>c \<in> set (with_repo components). slug c = component_dir e \<and>
           (\<exists>p \<in> set projects. project_pk p = project c \<and> project_slug p = project_dir e)))"

text \<open>Checkout directories for the examples.\<close>

definition checkout :: "string \<Rightarrow> string \<Rightarrow> timestamp \<Rightarrow> fs_entry" where
  "checkout p c t = \<lparr>project_dir = p, component_dir = c, is_dir = True, mtime = t, read_only = True\<rparr>"

section \<open>Theorems\<close>

subsection \<open>Cleanup of old suggestions and comments\<close>

text \<open>
  Claim C10. When \<^verbatim>\<open>SUGGESTION_CLEANUP_DAYS\<close> is zero or unset, one run of
  \<open>cleanup_old_suggestions\<close> leaves the suggestion table unchanged, and when
  \<^verbatim>\<open>COMMENT_CLEANUP_DAYS\<close> is zero or unset, one run of \<open>cleanup_old_comments\<close>
  leaves the comment table unchanged. A row that a run deletes has a timestamp strictly
  older than the clock reading minus the configured number of days.
\<close>

theorem cleanup_old_frame:
  "(sdays = None \<or> sdays = Some 0 \<longrightarrow>
      cleanup_old_suggestions sdays now suggestions = suggestions) \<and>
   (cdays = None \<or> cdays = Some 0 \<longrightarrow>
      cleanup_old_comments cdays now comments = comments) \<and>
   (\<forall>s \<in> set suggestions. s \<notin> set (cleanup_old_suggestions sdays now suggestions) \<longrightarrow>
      (\<exists>d. sdays = Some d \<and> d \<noteq> 0 \<and> suggestion_timestamp s < now - timedelta_days d)) \<and>
   (\<forall>c \<in> set comments. c \<notin> set (cleanup_old_comments cdays now comments) \<longrightarrow>
      (\<exists>d. cdays = Some d \<and> d \<noteq> 0 \<and> comment_timestamp c < now - timedelta_days d))"
proof (intro conjI impI ballI)
  assume "sdays = None \<or> sdays = Some 0"
  then show "cleanup_old_suggestions sdays now suggestions = suggestions"
    by (auto simp: cleanup_old_suggestions_def py_not_def)
next
  assume "cdays = None \<or> cdays = Some 0"
  then show "cleanup_old_comments cdays now comments = comments"
    by (auto simp: cleanup_old_comments_def py_not_def)
next
  fix s
  assume "s \<in> set suggestions" "s \<notin> set (cleanup_old_suggestions sdays now suggestions)"
  then show "\<exists>d. sdays = Some d \<and> d \<noteq> 0 \<and> suggestion_timestamp s < now - timedelta_days d"
    by (cases sdays) (auto simp: cleanup_old_suggestions_def py_not_def split: if_splits)
next
  fix c
  assume "c \<in> set comments" "c \<notin> set (cleanup_old_comments cdays now comments)"
  then show "\<exists>d. cdays = Some d \<and> d \<noteq> 0 \<and> comment_timestamp c < now - timedelta_days d"
    by (cases cdays) (auto simp: cleanup_old_comments_def py_not_def split: if_splits)
qed

theorem cleanup_old_frame_witness:
  "cleanup_old_suggestions None 200000000000
     [\<lparr>suggestion_id = 1, suggestion_timestamp = 5\<rparr>] =
     [\<lparr>suggestion_id = 1, suggestion_timestamp = 5\<rparr>] \<and>
   cleanup_old_comments (Some 0) 200000000000
     [\<lparr>comment_id = 1, comment_timestamp = 5\<rparr>] =
     [\<lparr>comment_id = 1, comment_timestamp = 5\<rparr>] \<and>
   \<lparr>suggestion_id = 1, suggestion_timestamp = 5\<rparr> \<notin>
     set (cleanup_old_suggestions (Some 1) 200000000000
       [\<lparr>suggestion_id = 1, suggestion_timestamp = 5\<rparr>]) \<and>
   (\<exists>d. Some (1::int) = Some d \<and> d \<noteq> 0 \<and> (5::int) < 200000000000 - timedelta_days d) \<and>
   \<lparr>comment_id = 1, comment_timestamp = 5\<rparr> \<notin>
     set (cleanup_old_comments (Some 1) 200000000000
       [\<lparr>comment_id = 1, comment_timestamp = 5\<rparr>]) \<and>
   (\<exists>d. Some (1::int) = Some d \<and> d \<noteq> 0 \<and> (5::int) < 200000000000 - timedelta_days d)"
proof -
  let ?s = "\<lparr>suggestion_id = 1, suggestion_timestamp = 5\<rparr>"
  let ?c = "\<lparr>comment_id = 1, comment_timestamp = 5\<rparr>"
  have del_s: "?s \<notin> set (cleanup_old_suggestions (Some 1) 200000000000 [?s])"
    by (simp add: cleanup_old_suggestions_def py_not_def timedelta_days_def)
  have del_c: "?c \<notin> set (cleanup_old_comments (Some 1) 200000000000 [?c])"
    by (simp add: cleanup_old_comments_def py_not_def timedelta_days_def)
  note unset = cleanup_old_frame [where sdays = None and cdays = "Some 0"
      and now = 200000000000 and suggestions = "[?s]" and comments = "[?c]"]
  note one_day = cleanup_old_frame [where sdays = "Some 1" and cdays = "Some 1"
      and now = 200000000000 and suggestions = "[?s]" and comments = "[?c]"]
  from unset have "cleanup_old_suggestions None 200000000000 [?s] = [?s]"
    and "cleanup_old_comments (Some 0) 200000000000 [?c] = [?c]"
    by simp_all
  moreover from one_day del_s
  have "\<exists>d. Some (1::int) = Some d \<and> d \<noteq> 0 \<and> (5::int) < 200000000000 - timedelta_days d"
    by simp
  ultimately show ?thesis using del_s del_c by simp
qed

subsection \<open>The commit-age scheduler\<close>

text \<open>One iteration of the loop enqueues exactly when the component is eligible.\<close>

lemma commit_pending_loop_step:
  "commit_pending_loop hours logger clock i (c # cs) (queue, logged) =
     commit_pending_loop hours logger clock (Suc i) cs
       (if eligible hours (clock i) c
        then (queue @ [Perform_commit (pk c) [Str ''commit_pending'', PyNone]],
              if logger then logged @ [pk c] else logged)
        else (queue, logged))"
  by (cases hours; cases "last_changed c")
     (auto simp: eligible_def threshold_hours_def Let_def)

lemma commit_pending_loop_eq:
  "commit_pending_loop hours logger clock i cs (queue, logged) =
     (queue @ map (\<lambda>c. Perform_commit (pk c) [Str ''commit_pending'', PyNone])
                (eligible_from hours clock i cs),
      logged @ (if logger then map pk (eligible_from hours clock i cs) else []))"
proof (induction cs arbitrary: i queue logged)
  case Nil
  then show ?case by simp
next
  case (Cons c cs)
  show ?case
    unfolding commit_pending_loop_step
    by (simp add: Cons.IH del: commit_pending_loop.simps)
qed

lemma in_eligible_from:
  "c \<in> set (eligible_from hours clock i cs) \<longleftrightarrow>
     (\<exists>j < length cs. cs ! j = c \<and> eligible hours (clock (i + j)) c)"
proof (induction cs arbitrary: i)
  case Nil
  then show ?case by simp
next
  case (Cons a cs)
  have split: "(\<exists>j < length (a # cs). (a # cs) ! j = c \<and> eligible hours (clock (i + j)) c) \<longleftrightarrow>
      (a = c \<and> eligible hours (clock i) c) \<or>
      (\<exists>j < length cs. cs ! j = c \<and> eligible hours (clock (Suc i + j)) c)"
    (is "?L \<longleftrightarrow> ?R")
  proof
    assume ?L
    then obtain j where j: "j < length (a # cs)" "(a # cs) ! j = c" "eligible hours (clock (i + j)) c"
      by blast
    show ?R
    proof (cases j)
      case 0
      with j show ?thesis by simp
    next
      case (Suc k)
      with j have "k < length cs" "cs ! k = c" "eligible hours (clock (Suc i + k)) c" by simp_all
      then show ?thesis by blast
    qed
  next
    assume ?R
    then show ?L
    proof
      assume "a = c \<and> eligible hours (clock i) c"
      then have "0 < length (a # cs) \<and> (a # cs) ! 0 = c \<and> eligible hours (clock (i + 0)) c" by simp
      then show ?L by blast
    next
      assume "\<exists>j < length cs. cs ! j = c \<and> eligible hours (clock (Suc i + j)) c"
      then obtain k where "k < length cs" "cs ! k = c" "eligible hours (clock (Suc i + k)) c" by blast
      then have "Suc k < length (a # cs) \<and> (a # cs) ! Suc k = c \<and> eligible hours (clock (i + Suc k)) c"
        by simp
      then show ?L by blast
    qed
  qed
  show ?case unfolding split using Cons.IH [of "Suc i"] by auto
qed

lemma distinct_pk_query:
  assumes "distinct (map pk components)"
  shows "distinct (map pk (commit_pending_components pks components translation_rows))"
proof (cases pks)
  case None
  with assms show ?thesis by (simp add: commit_pending_components_def)
next
  case (Some ks)
  have sub: "set (filter_translation_pk_in ks components translation_rows) \<subseteq> set components"
    by (auto simp: filter_translation_pk_in_def)
  from assms have "inj_on pk (set components)" by (simp add: distinct_map)
  with sub have "inj_on pk (set (remdups (filter_translation_pk_in ks components translation_rows)))"
    by (auto intro: inj_on_subset)
  then show ?thesis using Some
    by (simp add: commit_pending_components_def distinct_map)
qed

lemma eligible_from_at:
  assumes d: "distinct (map pk cs)" and j: "j < length cs"
  shows "(\<exists>c' \<in> set (eligible_from hours clock 0 cs). pk c' = pk (cs ! j)) \<longleftrightarrow>
         eligible hours (clock j) (cs ! j)"
proof
  assume "\<exists>c' \<in> set (eligible_from hours clock 0 cs). pk c' = pk (cs ! j)"
  then obtain c' where c': "c' \<in> set (eligible_from hours clock 0 cs)" "pk c' = pk (cs ! j)"
    by blast
  from c'(1) obtain k where "k < length cs" "cs ! k = c'" "eligible hours (clock (0 + k)) c'"
    unfolding in_eligible_from by blast
  with c'(2) have k: "k < length cs" "pk (cs ! k) = pk (cs ! j)" "eligible hours (clock k) (cs ! k)"
    by simp_all
  from d j k(1,2) have "k = j"
    by (metis distinct_conv_nth length_map nth_map)
  with k(3) show "eligible hours (clock j) (cs ! j)" by simp
next
  assume "eligible hours (clock j) (cs ! j)"
  with j have "cs ! j \<in> set (eligible_from hours clock 0 cs)"
    unfolding in_eligible_from by auto
  then show "\<exists>c' \<in> set (eligible_from hours clock 0 cs). pk c' = pk (cs ! j)" by blast
qed

lemma filter_distinct_key:
  "distinct (map f xs) \<Longrightarrow> x \<in> set xs \<Longrightarrow> filter (\<lambda>y. f y = f x) xs = [x]"
proof (induction xs)
  case Nil
  then show ?case by simp
next
  case (Cons a xs)
  show ?case
  proof (cases "a = x")
    case True
    with Cons.prems(1) have "\<forall>y \<in> set xs. f y \<noteq> f x" by (auto simp: image_iff)
    then have "filter (\<lambda>y. f y = f x) xs = []" by (simp add: filter_empty_conv)
    with True show ?thesis by simp
  next
    case False
    with Cons.prems have "x \<in> set xs" "f a \<noteq> f x" "distinct (map f xs)" by (auto simp: image_iff)
    with Cons.IH show ?thesis by simp
  qed
qed

lemma set_eligible_from: "set (eligible_from hours clock i cs) \<subseteq> set cs"
  by (induction cs arbitrary: i) auto

lemma distinct_eligible_from:
  "distinct (map pk cs) \<Longrightarrow> distinct (map pk (eligible_from hours clock i cs))"
proof (induction cs arbitrary: i)
  case Nil
  then show ?case by simp
next
  case (Cons a cs)
  from Cons.prems have "pk a \<notin> pk ` set cs" by simp
  with set_eligible_from [of hours clock "Suc i" cs]
  have "pk a \<notin> pk ` set (eligible_from hours clock (Suc i) cs)" by blast
  with Cons show ?case by simp
qed

text \<open>
  Claim C1. Take the components that one run of \<open>commit_pending\<close> scans, and let \<open>c\<close> be
  the one scanned in iteration \<open>j\<close>. A commit task for \<open>c\<close> is enqueued if and only if
  \<open>c\<close> has a recorded last change, the time elapsed since then at the clock reading of
  that iteration is at least the threshold in hours (the argument \<open>hours\<close> when given,
  the component's \<open>commit_pending_age\<close> otherwise) and \<open>needs_commit\<close> holds. The logger,
  when given, is called for exactly these components. A component with nothing to commit
  or with no recorded change gets no task and no log line. Primary keys are unique.
\<close>

theorem commit_pending_enqueues_iff:
  assumes "distinct (map pk components)"
    and "j < length (commit_pending_components pks components translation_rows)"
    and "c = commit_pending_components pks components translation_rows ! j"
  shows "(Perform_commit (pk c) [Str ''commit_pending'', PyNone]
            \<in> set (fst (commit_pending hours pks logger clock components translation_rows))
          \<longleftrightarrow> eligible hours (clock j) c) \<and>
         ((\<exists>t \<in> set (fst (commit_pending hours pks logger clock components translation_rows)).
             task_target t = pk c) \<longleftrightarrow> eligible hours (clock j) c) \<and>
         (pk c \<in> set (snd (commit_pending hours pks logger clock components translation_rows))
          \<longleftrightarrow> logger \<and> eligible hours (clock j) c) \<and>
         (\<not> needs_commit c \<or> last_changed c = None \<longrightarrow>
            (\<forall>t \<in> set (fst (commit_pending hours pks logger clock components translation_rows)).
               task_target t \<noteq> pk c) \<and>
            pk c \<notin> set (snd (commit_pending hours pks logger clock components translation_rows)))"
proof -
  let ?cs = "commit_pending_components pks components translation_rows"
  let ?E = "eligible_from hours clock 0 ?cs"
  let ?task = "\<lambda>c. Perform_commit (pk c) [Str ''commit_pending'', PyNone]"
  have d: "distinct (map pk ?cs)" using assms(1) by (rule distinct_pk_query)
  note at = eligible_from_at [OF d assms(2), of hours clock, folded assms(3)]
  have q: "fst (commit_pending hours pks logger clock components translation_rows) = map ?task ?E"
    and l: "snd (commit_pending hours pks logger clock components translation_rows) =
      (if logger then map pk ?E else [])"
    by (simp_all add: commit_pending_def commit_pending_loop_eq)
  have 1: "?task c \<in> set (map ?task ?E) \<longleftrightarrow> (\<exists>c' \<in> set ?E. pk c' = pk c)"
    by (simp add: image_iff) metis
  have 2: "(\<exists>t \<in> set (map ?task ?E). task_target t = pk c) \<longleftrightarrow> (\<exists>c' \<in> set ?E. pk c' = pk c)"
    by auto
  have 3: "pk c \<in> set (if logger then map pk ?E else []) \<longleftrightarrow>
      logger \<and> (\<exists>c' \<in> set ?E. pk c' = pk c)"
    by (cases logger) (simp_all add: image_iff, metis)
  have main: "(?task c \<in> set (map ?task ?E) \<longleftrightarrow> eligible hours (clock j) c) \<and>
      ((\<exists>t \<in> set (map ?task ?E). task_target t = pk c) \<longleftrightarrow> eligible hours (clock j) c) \<and>
      (pk c \<in> set (if logger then map pk ?E else []) \<longleftrightarrow> logger \<and> eligible hours (clock j) c)"
    unfolding 1 2 3 at by simp
  have no: "\<not> eligible hours (clock j) c" if "\<not> needs_commit c \<or> last_changed c = None"
    using that by (auto simp: eligible_def split: option.splits)
  from main no show ?thesis unfolding q l by blast
qed

theorem commit_pending_enqueues_iff_witness:
  "eligible None (timedelta_hours 24) core \<and>
   Perform_commit 1 [Str ''commit_pending'', PyNone]
     \<in> set (fst (commit_pending None (Some [10, 11, 20]) True (\<lambda>i. timedelta_hours 24)
                 [core, docs] core_translation_rows)) \<and>
   \<not> eligible None (timedelta_hours 24) docs \<and>
   Perform_commit 2 [Str ''commit_pending'', PyNone]
     \<notin> set (fst (commit_pending None (Some [10, 11, 20]) True (\<lambda>i. timedelta_hours 24)
                 [core, docs] core_translation_rows))"
proof -
  have cs: "commit_pending_components (Some [10, 11, 20]) [core, docs] core_translation_rows = [core, docs]"
    by (simp add: commit_pending_components_def filter_translation_pk_in_def core_def docs_def
        core_translation_rows_def)
  have d: "distinct (map pk [core, docs])"
    by (simp add: core_def docs_def)
  have e1: "eligible None (timedelta_hours 24) core"
    by (simp add: eligible_def threshold_hours_def core_def)
  have e2: "\<not> eligible None (timedelta_hours 24) docs"
    by (simp add: eligible_def threshold_hours_def docs_def)
  have p1: "pk core = 1" and p2: "pk docs = 2" by (simp_all add: core_def docs_def)
  from commit_pending_enqueues_iff [where components = "[core, docs]" and j = 0 and c = core
      and pks = "Some [10, 11, 20]" and translation_rows = core_translation_rows and hours = None
      and logger = True and clock = "\<lambda>i. timedelta_hours 24", OF d] e1
  have "Perform_commit 1 [Str ''commit_pending'', PyNone]
     \<in> set (fst (commit_pending None (Some [10, 11, 20]) True (\<lambda>i. timedelta_hours 24)
                 [core, docs] core_translation_rows))"
    by (simp add: cs p1)
  moreover
  from commit_pending_enqueues_iff [where components = "[core, docs]" and j = 1 and c = docs
      and pks = "Some [10, 11, 20]" and translation_rows = core_translation_rows and hours = None
      and logger = True and clock = "\<lambda>i. timedelta_hours 24", OF d] e2
  have "Perform_commit 2 [Str ''commit_pending'', PyNone]
     \<notin> set (fst (commit_pending None (Some [10, 11, 20]) True (\<lambda>i. timedelta_hours 24)
                 [core, docs] core_translation_rows))"
    by (simp add: cs p2)
  ultimately show ?thesis using e1 e2 by simp
qed

text \<open>
  Claim C9, as amended. For a component \<open>c\<close> that is eligible in a run of
  \<open>commit_pending\<close>, the tasks that the run enqueues for \<open>c\<close> are exactly one
  \<open>perform_commit\<close> task, also when several of the given translation ids belong to \<open>c\<close>.
  The task is appended to the queue, and its reason argument is \<^verbatim>\<open>"commit_pending"\<close>,
  followed by \<^verbatim>\<open>None\<close>.
\<close>

theorem commit_pending_exactly_one:
  assumes "distinct (map pk components)"
    and "j < length (commit_pending_components pks components translation_rows)"
    and "c = commit_pending_components pks components translation_rows ! j"
    and "eligible hours (clock j) c"
  shows "filter (\<lambda>t. task_target t = pk c)
           (fst (commit_pending hours pks logger clock components translation_rows)) =
         [Perform_commit (pk c) [Str ''commit_pending'', PyNone]] \<and>
         map reason_tag (filter (\<lambda>t. task_target t = pk c)
           (fst (commit_pending hours pks logger clock components translation_rows))) =
         [Some ''commit_pending'']"
proof -
  let ?cs = "commit_pending_components pks components translation_rows"
  let ?E = "eligible_from hours clock 0 ?cs"
  have d: "distinct (map pk ?E)"
    using assms(1) by (intro distinct_eligible_from distinct_pk_query)
  have "c \<in> set ?E"
    unfolding in_eligible_from using assms(2,3,4) by auto
  with d have one: "filter (\<lambda>y. pk y = pk c) ?E = [c]" by (rule filter_distinct_key)
  have "filter (\<lambda>t. task_target t = pk c)
           (fst (commit_pending hours pks logger clock components translation_rows)) =
        map (\<lambda>c. Perform_commit (pk c) [Str ''commit_pending'', PyNone]) (filter (\<lambda>y. pk y = pk c) ?E)"
    by (simp add: commit_pending_def commit_pending_loop_eq filter_map comp_def)
  with one show ?thesis by simp
qed

theorem commit_pending_exactly_one_witness:
  "eligible None (timedelta_hours 24) core \<and>
   filter (\<lambda>t. task_target t = 1)
     (fst (commit_pending None (Some [10, 11, 20]) True (\<lambda>i. timedelta_hours 24)
            [core, docs] core_translation_rows)) =
   [Perform_commit 1 [Str ''commit_pending'', PyNone]]"
proof -
  have cs: "commit_pending_components (Some [10, 11, 20]) [core, docs] core_translation_rows = [core, docs]"
    by (simp add: commit_pending_components_def filter_translation_pk_in_def core_def docs_def
        core_translation_rows_def)
  have d: "distinct (map pk [core, docs])"
    by (simp add: core_def docs_def)
  have e1: "eligible None (timedelta_hours 24) core"
    by (simp add: eligible_def threshold_hours_def core_def)
  have p1: "pk core = 1" by (simp add: core_def)
  from commit_pending_exactly_one [where components = "[core, docs]" and j = 0 and c = core
      and pks = "Some [10, 11, 20]" and translation_rows = core_translation_rows and hours = None
      and logger = True and clock = "\<lambda>i. timedelta_hours 24", OF d] e1
  show ?thesis by (simp add: cs p1)
qed

text \<open>
  The claim as stated names the reason tag \<^verbatim>\<open>"periodic-commit"\<close>. The run on the sample
  data enqueues one task, and its tag is \<^verbatim>\<open>"commit_pending"\<close>.
\<close>

theorem commit_pending_reason_counterexample:
  "map reason_tag (fst (commit_pending None (Some [10, 11, 20]) True (\<lambda>i. timedelta_hours 24)
      [core, docs] core_translation_rows)) = [Some ''commit_pending''] \<and>
   map reason_tag (fst (commit_pending None (Some [10, 11, 20]) True (\<lambda>i. timedelta_hours 24)
      [core, docs] core_translation_rows)) \<noteq> [Some ''periodic-commit'']"
proof -
  have cs: "commit_pending_components (Some [10, 11, 20]) [core, docs] core_translation_rows = [core, docs]"
    by (simp add: commit_pending_components_def filter_translation_pk_in_def core_def docs_def
        core_translation_rows_def)
  have "fst (commit_pending None (Some [10, 11, 20]) True (\<lambda>i. timedelta_hours 24)
      [core, docs] core_translation_rows) = [Perform_commit 1 [Str ''commit_pending'', PyNone]]"
    unfolding commit_pending_def cs
    by (simp add: core_def docs_def timedelta_hours_def)
  then show ?thesis by simp
qed

subsection \<open>The alert engine\<close>

lemma repository_alerts_step_other:
  "k \<noteq> pk c \<Longrightarrow> (k, name) \<in> repository_alerts_step threshold c store \<longleftrightarrow> (k, name) \<in> store"
  by (simp add: repository_alerts_step_def add_alert_def delete_alert_def Let_def)

lemma repository_alerts_step_own:
  "(pk c, ''RepositoryOutdated'') \<in> repository_alerts_step threshold c store \<longleftrightarrow>
     count_missing c > threshold"
  "(pk c, ''RepositoryChanges'') \<in> repository_alerts_step threshold c store \<longleftrightarrow>
     count_outgoing c > threshold"
  by (simp_all add: repository_alerts_step_def add_alert_def delete_alert_def Let_def)

lemma repository_alerts_loop_other:
  "k \<notin> pk ` set cs \<Longrightarrow>
     (k, name) \<in> repository_alerts_loop threshold cs store \<longleftrightarrow> (k, name) \<in> store"
  by (induction cs arbitrary: store) (simp_all add: repository_alerts_step_other)

lemma repository_alerts_loop_own:
  assumes "distinct (map pk cs)" and "c \<in> set cs"
  shows "((pk c, ''RepositoryOutdated'') \<in> repository_alerts_loop threshold cs store \<longleftrightarrow>
            count_missing c > threshold) \<and>
         ((pk c, ''RepositoryChanges'') \<in> repository_alerts_loop threshold cs store \<longleftrightarrow>
            count_outgoing c > threshold)"
  using assms
proof (induction cs arbitrary: store)
  case Nil
  then show ?case by simp
next
  case (Cons a cs)
  show ?case
  proof (cases "c \<in> set cs")
    case True
    with Cons show ?thesis by simp
  next
    case False
    with Cons.prems have a: "a = c" and fresh: "pk c \<notin> pk ` set cs" by auto
    show ?thesis
      by (simp add: a repository_alerts_loop_other [OF fresh] repository_alerts_step_own)
  qed
qed

text \<open>
  Claim C2. After one run of \<open>repository_alerts\<close> with threshold \<open>t\<close>, for every
  component with its own repository the alert \<^verbatim>\<open>RepositoryOutdated\<close> is active if and
  only if \<open>count_missing\<close> exceeds \<open>t\<close>, and the alert \<^verbatim>\<open>RepositoryChanges\<close> is active
  if and only if \<open>count_outgoing\<close> exceeds \<open>t\<close>, whatever the alerts were before; the
  default threshold is 10. Primary keys are unique.
\<close>

theorem repository_alerts_iff:
  assumes "distinct (map pk components)"
    and "c \<in> set components"
    and "\<not> is_repo_link c"
  shows "((pk c, ''RepositoryOutdated'') \<in> repository_alerts t components store \<longleftrightarrow>
            count_missing c > t) \<and>
         ((pk c, ''RepositoryChanges'') \<in> repository_alerts t components store \<longleftrightarrow>
            count_outgoing c > t) \<and>
         repository_alerts_default components store = repository_alerts 10 components store"
proof -
  from assms(1) have "distinct (map pk (with_repo components))"
    unfolding with_repo_def by (rule distinct_map_filter)
  moreover from assms(2,3) have "c \<in> set (with_repo components)"
    by (simp add: with_repo_def)
  ultimately show ?thesis
    unfolding repository_alerts_def repository_alerts_default_def
    using repository_alerts_loop_own by blast
qed

text \<open>
  The round trip of the spec: with threshold 10 and eleven missing commits the alert
  becomes active, and a later run that counts nine missing commits clears it.
\<close>

theorem repository_alerts_iff_witness:
  "(1, ''RepositoryOutdated'') \<in> repository_alerts_default [core, docs] {} \<and>
   (1, ''RepositoryOutdated'') \<notin>
     repository_alerts_default [core\<lparr>count_missing := 9\<rparr>, docs]
       (repository_alerts_default [core, docs] {}) \<and>
   (2, ''RepositoryChanges'') \<in> repository_alerts_default [core, docs] {} \<and>
   (2, ''RepositoryOutdated'') \<notin> repository_alerts_default [core, docs] {}"
proof -
  have d: "distinct (map pk [core, docs])" "distinct (map pk [core\<lparr>count_missing := 9\<rparr>, docs])"
    by (simp_all add: core_def docs_def)
  have up: "(1, ''RepositoryOutdated'') \<in> repository_alerts_default [core, docs] {}"
    using repository_alerts_iff [OF d(1), of core 10 "{}"]
    by (simp add: core_def)
  have down: "(1, ''RepositoryOutdated'') \<notin>
     repository_alerts_default [core\<lparr>count_missing := 9\<rparr>, docs]
       (repository_alerts_default [core, docs] {})"
    using repository_alerts_iff [OF d(2), of "core\<lparr>count_missing := 9\<rparr>" 10
        "repository_alerts_default [core, docs] {}"]
    by (simp add: core_def)
  have other: "(2, ''RepositoryChanges'') \<in> repository_alerts_default [core, docs] {}"
    "(2, ''RepositoryOutdated'') \<notin> repository_alerts_default [core, docs] {}"
    using repository_alerts_iff [OF d(1), of docs 10 "{}"]
    by (simp_all add: docs_def)
  from up down other show ?thesis by simp
qed

subsection \<open>Lookups by primary key\<close>

lemma get_component_missing:
  "\<not> (\<exists>c \<in> set components. pk c = k) \<Longrightarrow> get_component components k = Inl (DoesNotExist ComponentModel)"
  by (auto simp: get_component_def find_None_iff split: option.splits)

lemma get_component_found:
  "\<exists>c \<in> set components. pk c = k \<Longrightarrow> \<exists>c. get_component components k = Inr c \<and> pk c = k"
  by (auto simp: get_component_def find_None_iff find_Some_iff split: option.splits)

lemma get_project_missing:
  "\<not> (\<exists>p \<in> set projects. project_pk p = k) \<Longrightarrow> get_project projects k = Inl (DoesNotExist ProjectModel)"
  by (auto simp: get_project_def find_None_iff split: option.splits)

subsection \<open>Parse failures\<close>

text \<open>Whatever the called method raises, no parse failure leaves \<open>perform_update\<close>.\<close>

lemma perform_update_swallows_FileParseError:
  "snd (perform_update s raises projects components cls k auto) \<noteq> Some FileParseError"
  by (auto simp: perform_update_def except_FileParseError_def get_project_def get_component_def
      split: option.splits)

text \<open>
  Claim C3. The claim has a parse failure caught in the update task and in the load task.
  On the sample data, with every method call raising \<^verbatim>\<open>FileParseError\<close>, the update task
  ends as done, while the parse failure leaves \<open>perform_load\<close>, which has no handler, and
  the load task ends as failed (it is not retried).
\<close>

theorem perform_load_parse_error:
  "perform_load (\<lambda>call. Some FileParseError) [core, docs] 1 [] =
     ([Create_translations 1 []], Some FileParseError) \<and>
   run_task 0 (snd (perform_load (\<lambda>call. Some FileParseError) [core, docs] 1 [])) =
     Failed FileParseError \<and>
   perform_update (SStr ''full'') (\<lambda>call. Some FileParseError) [acme] [core, docs] ''Component'' 1 True =
     ([Do_update ComponentModel 1], None) \<and>
   run_task 0 (snd (perform_update (SStr ''full'') (\<lambda>call. Some FileParseError) [acme] [core, docs]
     ''Component'' 1 True)) = Done"
  by (simp add: perform_load_def perform_update_def except_FileParseError_def get_component_def
      run_task_def autoretry_for_def core_def docs_def)

subsection \<open>Tasks whose target is gone\<close>

text \<open>
  Claim C4, as amended. When the project of \<open>cleanup_project\<close> no longer exists, the task
  returns without an error and leaves the Unit table as it is. When the component of
  \<open>perform_commit\<close> no longer exists, the task calls nothing and the
  \<^verbatim>\<open>DoesNotExist\<close> of Component leaves it: the task ends as failed and is not retried.
\<close>

theorem missing_target:
  "(\<not> (\<exists>p \<in> set projects. project_pk p = k) \<longrightarrow>
      cleanup_project projects components translation_rows units k = (units, None)) \<and>
   (\<not> (\<exists>c \<in> set components. pk c = k) \<longrightarrow>
      perform_commit raises components k args = ([], Some (DoesNotExist ComponentModel)) \<and>
      run_task retries (snd (perform_commit raises components k args)) =
        Failed (DoesNotExist ComponentModel))"
  by (simp add: cleanup_project_def perform_commit_def get_project_missing get_component_missing
      run_task_def autoretry_for_def)

theorem missing_target_witness:
  "cleanup_project [acme] [core, docs] core_translation_rows [] 7 = ([], None) \<and>
   perform_commit (\<lambda>call. None) [core, docs] 7 [Str ''commit_pending'', PyNone] =
     ([], Some (DoesNotExist ComponentModel)) \<and>
   run_task 0 (snd (perform_commit (\<lambda>call. None) [core, docs] 7 [Str ''commit_pending'', PyNone])) =
     Failed (DoesNotExist ComponentModel)"
proof -
  have no_project: "\<not> (\<exists>p \<in> set [acme]. project_pk p = 7)"
    by (simp add: acme_def)
  have no_component: "\<not> (\<exists>c \<in> set [core, docs]. pk c = 7)"
    by (simp add: core_def docs_def)
  from missing_target [of "[acme]" 7 "[core, docs]" core_translation_rows "[]" "\<lambda>call. None"
      "[Str ''commit_pending'', PyNone]" 0] no_project no_component
  show ?thesis by blast
qed

text \<open>
  The claim as stated has every such task end without an error. On a Component table
  without the key 1, an exception leaves \<open>perform_commit\<close>.
\<close>

theorem missing_target_counterexample:
  "snd (perform_commit (\<lambda>call. None) [docs] 1 [Str ''commit_pending'', PyNone]) =
     Some (DoesNotExist ComponentModel) \<and>
   snd (perform_commit (\<lambda>call. None) [docs] 1 [Str ''commit_pending'', PyNone]) \<noteq> None"
  by (simp add: perform_commit_def get_component_def docs_def)

text \<open>
  In \<open>component_removal\<close> the handler names the exception of another model, so the task
  raises as well when its component is gone.
\<close>

lemma component_removal_missing_component:
  "uid \<in> set users \<Longrightarrow> \<not> (\<exists>c \<in> set components. pk c = k) \<Longrightarrow>
     component_removal users projects components changes k uid =
       ((components, changes), Some (DoesNotExist ComponentModel))"
  by (simp add: component_removal_def get_user_def get_component_missing)

subsection \<open>Auto-update modes\<close>

text \<open>
  Claim C5. For a component with its own repository, an update triggered by the scheduler
  (\<open>auto\<close> true) calls \<open>do_update\<close> exactly when the mode is full, and calls
  \<open>update_remote_branch\<close> otherwise, so in remote-only mode; in disabled mode
  \<open>update_remotes\<close> enqueues nothing, and in the other modes it enqueues an update with
  \<open>auto\<close> true for the component; an update triggered by hand (\<open>auto\<close> false) calls
  \<open>do_update\<close> in every mode.
\<close>

theorem auto_update_modes:
  assumes "c \<in> set (with_repo components)"
  shows "(fst (perform_update s raises projects components ''Component'' (pk c) True) =
            [Do_update ComponentModel (pk c)] \<longleftrightarrow> spec_auto_update_mode s = Full) \<and>
         (spec_auto_update_mode s \<noteq> Full \<longrightarrow>
            fst (perform_update s raises projects components ''Component'' (pk c) True) =
              [Update_remote_branch ComponentModel (pk c)]) \<and>
         (spec_auto_update_mode s = Disabled \<longrightarrow> update_remotes s components = []) \<and>
         (spec_auto_update_mode s \<noteq> Disabled \<longrightarrow>
            Perform_update ''Component'' (pk c) True \<in> set (update_remotes s components)) \<and>
         fst (perform_update s raises projects components ''Component'' (pk c) False) =
           [Do_update ComponentModel (pk c)]"
proof -
  from assms have "\<exists>c' \<in> set components. pk c' = pk c" by (auto simp: with_repo_def)
  then obtain c' where c': "get_component components (pk c) = Inr c'" "pk c' = pk c"
    using get_component_found by blast
  have full: "s \<in> set [SStr ''full'', SBool True] \<longleftrightarrow> spec_auto_update_mode s = Full"
    by (cases s) auto
  have enabled: "s \<notin> set [SStr ''full'', SStr ''remote'', SBool True, SBool False] \<longleftrightarrow>
      spec_auto_update_mode s = Disabled"
    by (cases s) auto
  have pu: "fst (perform_update s raises projects components ''Component'' (pk c) auto) =
      (if spec_auto_update_mode s = Full \<or> \<not> auto then [Do_update ComponentModel (pk c)]
       else [Update_remote_branch ComponentModel (pk c)])" for auto
    unfolding perform_update_def except_FileParseError_def full [symmetric]
    by (simp add: c')
  have ur: "update_remotes s components =
      (if spec_auto_update_mode s = Disabled then []
       else map (\<lambda>c. Perform_update ''Component'' (pk c) True) (with_repo components))"
    unfolding update_remotes_def Let_def enabled by simp
  show ?thesis unfolding pu ur using assms by auto
qed

theorem auto_update_modes_witness:
  "fst (perform_update (SStr ''full'') (\<lambda>call. None) [acme] [core, docs] ''Component'' 1 True) =
     [Do_update ComponentModel 1] \<and>
   fst (perform_update (SStr ''remote'') (\<lambda>call. None) [acme] [core, docs] ''Component'' 1 True) =
     [Update_remote_branch ComponentModel 1] \<and>
   update_remotes (SStr ''none'') [core, docs] = [] \<and>
   Perform_update ''Component'' 1 True \<in> set (update_remotes (SStr ''remote'') [core, docs]) \<and>
   fst (perform_update (SStr ''none'') (\<lambda>call. None) [acme] [core, docs] ''Component'' 1 False) =
     [Do_update ComponentModel 1]"
proof -
  have c: "core \<in> set (with_repo [core, docs])" and p: "pk core = 1"
    by (simp_all add: with_repo_def core_def)
  note m = auto_update_modes [OF c, of _ "\<lambda>call. None" "[acme]", unfolded p]
  from m [of "SStr ''full''"] m [of "SStr ''remote''"] m [of "SStr ''none''"]
  show ?thesis by simp
qed

subsection \<open>Retry delays\<close>

lemma retry_delay_eq: "retry_delay n = min 3600 (600 * 2 ^ n)"
  by (simp add: retry_delay_def get_exponential_backoff_interval_def retry_backoff_def
      retry_backoff_max_def)

text \<open>
  Claim C6. For a task that fails with \<^verbatim>\<open>Timeout\<close>, the delay before the first retry is
  600 seconds, each further delay is twice the one before, capped at 3600 seconds; the
  delays never decrease and never exceed 3600 seconds, the first three are 600, 1200 and
  2400 seconds, and the task is rescheduled after any number of retries.
\<close>

theorem retry_delay_sequence:
  "retry_delay 0 = 600 \<and>
   retry_delay (Suc n) = min 3600 (2 * retry_delay n) \<and>
   retry_delay n \<le> retry_delay (Suc n) \<and>
   retry_delay n \<le> 3600 \<and>
   map retry_delay [0, 1, 2] = [600, 1200, 2400] \<and>
   run_task n (Some Timeout) = Retrying (retry_delay n)"
proof -
  have "map retry_delay [0, 1, 2] = [600, 1200, 2400]"
    by (simp add: retry_delay_eq)
  moreover have "run_task n (Some Timeout) = Retrying (retry_delay n)"
    by (simp add: run_task_def autoretry_for_def)
  moreover have "retry_delay (Suc n) = min 3600 (2 * retry_delay n)"
    by (simp add: retry_delay_eq min_def)
  moreover have "retry_delay n \<le> retry_delay (Suc n)"
    by (simp add: retry_delay_eq min_def)
  moreover have "retry_delay 0 = 600" "retry_delay n \<le> 3600"
    by (simp_all add: retry_delay_eq)
  ultimately show ?thesis by simp
qed

subsection \<open>Cleanup of the fulltext index\<close>

text \<open>
  The inner loop removes from the partition the entries that its snapshot lists and
  whose unit is gone.
\<close>

lemma cleanup_fulltext_items_eq:
  "ft lang = Some entries \<Longrightarrow>
     cleanup_fulltext_items units lang stored ft =
       ft(lang := Some (filter (\<lambda>e. \<not> (e \<in> set stored \<and> \<not> unit_exists units e)) entries))"
proof (induction stored arbitrary: ft entries)
  case Nil
  then show ?case by auto
next
  case (Cons item stored)
  show ?case
  proof (cases "unit_exists units item")
    case True
    have "filter (\<lambda>e. \<not> (e \<in> set (item # stored) \<and> \<not> unit_exists units e)) entries =
          filter (\<lambda>e. \<not> (e \<in> set stored \<and> \<not> unit_exists units e)) entries"
      using True by (intro filter_cong) auto
    moreover from Cons.prems
    have "cleanup_fulltext_items units lang stored ft =
        ft(lang := Some (filter (\<lambda>e. \<not> (e \<in> set stored \<and> \<not> unit_exists units e)) entries))"
      by (rule Cons.IH)
    ultimately show ?thesis using True by simp
  next
    case False
    let ?ft = "clean_search_unit item lang ft"
    have ft': "?ft = ft(lang := Some (filter (\<lambda>e. e \<noteq> item) entries))"
      using Cons.prems by (simp add: clean_search_unit_def)
    then have "?ft lang = Some (filter (\<lambda>e. e \<noteq> item) entries)" by simp
    then have "cleanup_fulltext_items units lang stored ?ft =
        ?ft(lang := Some (filter (\<lambda>e. \<not> (e \<in> set stored \<and> \<not> unit_exists units e))
                          (filter (\<lambda>e. e \<noteq> item) entries)))"
      by (rule Cons.IH)
    moreover have "filter (\<lambda>e. \<not> (e \<in> set stored \<and> \<not> unit_exists units e))
                          (filter (\<lambda>e. e \<noteq> item) entries) =
        filter (\<lambda>e. \<not> (e \<in> set (item # stored) \<and> \<not> unit_exists units e)) entries"
      unfolding filter_filter using False by (intro filter_cong) auto
    ultimately show ?thesis using False by (simp add: ft')
  qed
qed

lemma cleanup_fulltext_items_snapshot:
  "ft lang = Some entries \<Longrightarrow>
     cleanup_fulltext_items units lang entries ft =
       ft(lang := Some (filter (unit_exists units) entries))"
proof -
  assume a: "ft lang = Some entries"
  have "filter (\<lambda>e. \<not> (e \<in> set entries \<and> \<not> unit_exists units e)) entries =
        filter (unit_exists units) entries"
    by (intro filter_cong) auto
  moreover from a have "cleanup_fulltext_items units lang entries ft =
      ft(lang := Some (filter (\<lambda>e. \<not> (e \<in> set entries \<and> \<not> unit_exists units e)) entries))"
    by (rule cleanup_fulltext_items_eq)
  ultimately show ?thesis by simp
qed

lemma cleanup_fulltext_languages_eq:
  "cleanup_fulltext_languages units languages ft p =
     (if p \<in> set languages then map_option (filter (unit_exists units)) (ft p) else ft p)"
proof (induction languages arbitrary: ft)
  case Nil
  then show ?case by simp
next
  case (Cons lang languages)
  show ?case
  proof (cases "ft lang")
    case None
    then show ?thesis by (auto simp: all_stored_fields_def Cons.IH)
  next
    case (Some entries)
    then show ?thesis
      by (auto simp: all_stored_fields_def Cons.IH cleanup_fulltext_items_snapshot)
  qed
qed

text \<open>
  Claim C7. One run of \<open>cleanup_fulltext\<close> leaves, in the source partition and in the
  partition of every language, exactly the stored entries whose unit still exists, and
  changes no other partition; a partition that was never built is skipped and stays so,
  and no error arises; a second run on the result changes nothing.
\<close>

theorem cleanup_fulltext_exact:
  "cleanup_fulltext language_codes units ft p =
     (if p = None \<or> p \<in> Some ` set language_codes
      then map_option (filter (unit_exists units)) (ft p) else ft p) \<and>
   (ft p = None \<longleftrightarrow> cleanup_fulltext language_codes units ft p = None) \<and>
   cleanup_fulltext language_codes units (cleanup_fulltext language_codes units ft) =
     cleanup_fulltext language_codes units ft"
proof -
  have eq: "cleanup_fulltext language_codes units g q =
     (if q = None \<or> q \<in> Some ` set language_codes
      then map_option (filter (unit_exists units)) (g q) else g q)" for g q
    unfolding cleanup_fulltext_def cleanup_fulltext_languages_eq by auto
  have "cleanup_fulltext language_codes units (cleanup_fulltext language_codes units ft) q =
     cleanup_fulltext language_codes units ft q" for q
    unfolding eq by (cases "ft q") auto
  then have "cleanup_fulltext language_codes units (cleanup_fulltext language_codes units ft) =
     cleanup_fulltext language_codes units ft" by (rule ext)
  moreover have "ft p = None \<longleftrightarrow> cleanup_fulltext language_codes units ft p = None"
    unfolding eq by simp
  ultimately show ?thesis using eq by simp
qed

theorem cleanup_fulltext_exact_witness:
  "cleanup_fulltext [''cs'', ''de''] sample_units sample_index (Some ''cs'') = Some [1, 3] \<and>
   cleanup_fulltext [''cs'', ''de''] sample_units sample_index (Some ''de'') = None \<and>
   cleanup_fulltext [''cs'', ''de''] sample_units sample_index None = Some [1] \<and>
   cleanup_fulltext [''cs'', ''de''] sample_units
     (cleanup_fulltext [''cs'', ''de''] sample_units sample_index) =
   cleanup_fulltext [''cs'', ''de''] sample_units sample_index"
  using cleanup_fulltext_exact [of "[''cs'', ''de'']" sample_units sample_index "Some ''cs''"]
    cleanup_fulltext_exact [of "[''cs'', ''de'']" sample_units sample_index "Some ''de''"]
    cleanup_fulltext_exact [of "[''cs'', ''de'']" sample_units sample_index None]
  by (simp add: sample_index_def sample_units_def unit_exists_def)

subsection \<open>The stale checkout reaper\<close>

text \<open>Parsing the path of an entry gives back the names of its two levels.\<close>

lemma os_path_split_two:
  assumes "valid_name a" "valid_name b"
  shows "os_path_split (a @ ''/'' @ b) = (a, b)"
proof -
  from assms have a: "a \<noteq> []" "CHR ''/'' \<notin> set a" and b: "CHR ''/'' \<notin> set b"
    by (simp_all add: valid_name_def)
  have tail: "takeWhile (\<lambda>c. c \<noteq> CHR ''/'') (rev (a @ ''/'' @ b)) = rev b"
    using b by (auto simp: takeWhile_tail)
  have head: "take (length (a @ ''/'' @ b) - length (rev (rev b))) (a @ ''/'' @ b) = a @ ''/''"
    by simp
  from a have "hd (a @ ''/'') \<noteq> CHR ''/''" by (cases a) auto
  moreover have "hd (replicate (length (a @ ''/'')) (CHR ''/'')) = CHR ''/''" by simp
  ultimately have ne: "a @ ''/'' \<noteq> replicate (length (a @ ''/'')) (CHR ''/'')" by metis
  from a have "hd (rev a) \<noteq> CHR ''/''" by (cases a rule: rev_cases) auto
  with a have strip: "dropWhile (\<lambda>c. c = CHR ''/'') (rev (a @ ''/'')) = rev a"
    by (cases "rev a") auto
  show ?thesis
    unfolding os_path_split_def Let_def tail head using ne strip by simp
qed

lemma entry_path_eq:
  assumes "valid_prefix prefix" "valid_entry e"
  shows "entry_path prefix e = prefix @ ''/'' @ project_dir e @ ''/'' @ component_dir e"
proof -
  from assms have p: "prefix \<noteq> []" "last prefix \<noteq> CHR ''/''"
    and a: "project_dir e \<noteq> []" "CHR ''/'' \<notin> set (project_dir e)"
    and b: "component_dir e \<noteq> []" "CHR ''/'' \<notin> set (component_dir e)"
    by (simp_all add: valid_prefix_def valid_entry_def valid_name_def)
  from a have ha: "hd (project_dir e) \<noteq> CHR ''/''" "last (project_dir e) \<noteq> CHR ''/''"
    by (metis hd_in_set, metis last_in_set)
  from b have hb: "hd (component_dir e) \<noteq> CHR ''/''" by (metis hd_in_set)
  have 1: "os_path_join prefix (project_dir e) = prefix @ ''/'' @ project_dir e"
    using p a ha by (simp add: os_path_join_def)
  have "last (prefix @ ''/'' @ project_dir e) \<noteq> CHR ''/''" using a ha by simp
  then show ?thesis
    unfolding entry_path_def 1 using b hb by (simp add: os_path_join_def)
qed

lemma parse_path:
  assumes "valid_prefix prefix" "valid_entry e"
  shows "os_path_split (drop (length prefix + 1) (entry_path prefix e)) =
           (project_dir e, component_dir e)"
proof -
  have "drop (length prefix + 1) (entry_path prefix e) = project_dir e @ ''/'' @ component_dir e"
    by (simp add: entry_path_eq [OF assms])
  moreover from assms(2)
  have "os_path_split (project_dir e @ ''/'' @ component_dir e) = (project_dir e, component_dir e)"
    by (intro os_path_split_two) (simp_all add: valid_entry_def)
  ultimately show ?thesis by simp
qed

lemma entry_path_inj:
  assumes "valid_prefix prefix" "valid_entry e" "valid_entry e'"
    and "entry_path prefix e = entry_path prefix e'"
  shows "project_dir e = project_dir e' \<and> component_dir e = component_dir e'"
  using parse_path [OF assms(1,2)] parse_path [OF assms(1,3)] assms(4) by simp


lemma matching_components_empty:
  "matching_components projects components (project_dir e) (component_dir e) = [] \<longleftrightarrow>
     \<not> (\<exists>c \<in> set (with_repo components). slug c = component_dir e \<and>
          (\<exists>p \<in> set projects. project_pk p = project c \<and> project_slug p = project_dir e))"
  by (auto simp: matching_components_def filter_empty_conv)

lemma cleanup_stale_repos_loop_step:
  assumes "valid_prefix prefix"
    and "find (\<lambda>e. entry_path prefix e = path) fs = Some e"
    and "valid_entry e"
  shows "cleanup_stale_repos_loop prefix (now - seconds 86400) projects components (path # paths) fs =
         cleanup_stale_repos_loop prefix (now - seconds 86400) projects components paths
           (if stale now projects components e then rmtree_remove_readonly prefix path fs else fs)"
proof -
  from assms(2) have path: "path = entry_path prefix e"
    by (auto simp: find_Some_iff)
  have split: "os_path_split (drop (length prefix + 1) path) = (project_dir e, component_dir e)"
    unfolding path using assms(1,3) by (rule parse_path)
  have st: "stale now projects components e \<longleftrightarrow>
      is_dir e \<and> \<not> mtime e > now - seconds 86400 \<and>
      matching_components projects components (project_dir e) (component_dir e) = []"
    unfolding matching_components_empty stale_def by auto
  show ?thesis
    unfolding cleanup_stale_repos_loop.simps assms(2) option.case split prod.case st
    by simp
qed

lemma cleanup_stale_repos_loop_eq:
  assumes "valid_prefix prefix"
    and "\<forall>e \<in> set fs. valid_entry e"
    and "distinct (map (entry_path prefix) fs)"
  shows "cleanup_stale_repos_loop prefix (now - seconds 86400) projects components paths fs =
         filter (\<lambda>e. \<not> (entry_path prefix e \<in> set paths \<and> stale now projects components e)) fs"
  using assms(2,3)
proof (induction paths arbitrary: fs)
  case Nil
  then show ?case by simp
next
  case (Cons path paths)
  let ?loop = "cleanup_stale_repos_loop prefix (now - seconds 86400) projects components"
  let ?st = "stale now projects components"
  show ?case
  proof (cases "find (\<lambda>e. entry_path prefix e = path) fs")
    case None
    then have no: "\<forall>e \<in> set fs. entry_path prefix e \<noteq> path"
      by (simp add: find_None_iff)
    have "?loop (path # paths) fs = ?loop paths fs"
      using None by simp
    also have "\<dots> = filter (\<lambda>e. \<not> (entry_path prefix e \<in> set paths \<and> ?st e)) fs"
      using Cons.prems by (rule Cons.IH)
    also have "\<dots> = filter (\<lambda>e. \<not> (entry_path prefix e \<in> set (path # paths) \<and> ?st e)) fs"
      using no by (intro filter_cong) auto
    finally show ?thesis .
  next
    case (Some e)
    then have e: "e \<in> set fs" "entry_path prefix e = path"
      by (auto simp: find_Some_iff in_set_conv_nth)
    from Cons.prems(2) have inj: "inj_on (entry_path prefix) (set fs)"
      by (simp add: distinct_map)
    have only: "e' = e" if "e' \<in> set fs" "entry_path prefix e' = path" for e'
      using inj that e by (auto dest: inj_onD)
    from Cons.prems(1) e(1) have "valid_entry e" by blast
    with assms(1) Some
    have step: "?loop (path # paths) fs =
        ?loop paths (if ?st e then rmtree_remove_readonly prefix path fs else fs)"
      by (rule cleanup_stale_repos_loop_step)
    show ?thesis
    proof (cases "?st e")
      case True
      let ?fs = "rmtree_remove_readonly prefix path fs"
      have "\<forall>e \<in> set ?fs. valid_entry e"
        using Cons.prems(1) by (simp add: rmtree_remove_readonly_def)
      moreover have "distinct (map (entry_path prefix) ?fs)"
        using Cons.prems(2) unfolding rmtree_remove_readonly_def by (rule distinct_map_filter)
      ultimately have "?loop paths ?fs =
          filter (\<lambda>e. \<not> (entry_path prefix e \<in> set paths \<and> ?st e)) ?fs"
        by (rule Cons.IH)
      also have "\<dots> = filter (\<lambda>e. \<not> (entry_path prefix e \<in> set (path # paths) \<and> ?st e)) fs"
        unfolding rmtree_remove_readonly_def filter_filter
        using True only by (intro filter_cong) auto
      finally show ?thesis using step True by simp
    next
      case False
      have "?loop paths fs = filter (\<lambda>e. \<not> (entry_path prefix e \<in> set paths \<and> ?st e)) fs"
        using Cons.prems by (rule Cons.IH)
      also have "\<dots> = filter (\<lambda>e. \<not> (entry_path prefix e \<in> set (path # paths) \<and> ?st e)) fs"
        using False only by (intro filter_cong) auto
      finally show ?thesis using step False by simp
    qed
  qed
qed

lemma distinct_entry_paths:
  assumes "valid_prefix prefix"
    and "\<forall>e \<in> set fs. valid_entry e"
    and "distinct (map (\<lambda>e. (project_dir e, component_dir e)) fs)"
  shows "distinct (map (entry_path prefix) fs)"
proof -
  have "inj_on (entry_path prefix) (set fs)"
  proof (rule inj_onI)
    fix e e'
    assume "e \<in> set fs" "e' \<in> set fs" "entry_path prefix e = entry_path prefix e'"
    with assms(1,2) have "(project_dir e, component_dir e) = (project_dir e', component_dir e')"
      using entry_path_inj by blast
    with assms(3) \<open>e \<in> set fs\<close> \<open>e' \<in> set fs\<close> show "e = e'"
      by (auto simp: distinct_map dest: inj_onD)
  qed
  moreover from assms(3) have "distinct fs" by (simp add: distinct_map)
  ultimately show ?thesis by (simp add: distinct_map)
qed

lemma cleanup_stale_repos_eq:
  assumes "valid_prefix prefix"
    and "\<forall>e \<in> set fs. valid_entry e"
    and "distinct (map (\<lambda>e. (project_dir e, component_dir e)) fs)"
  shows "cleanup_stale_repos prefix now projects components fs =
         filter (\<lambda>e. \<not> stale now projects components e) fs"
proof -
  from assms have "distinct (map (entry_path prefix) fs)" by (rule distinct_entry_paths)
  with assms(1,2)
  have "cleanup_stale_repos_loop prefix (now - seconds 86400) projects components (glob_vcs prefix fs) fs =
      filter (\<lambda>e. \<not> (entry_path prefix e \<in> set (glob_vcs prefix fs) \<and>
                      stale now projects components e)) fs"
    by (rule cleanup_stale_repos_loop_eq)
  also have "\<dots> = filter (\<lambda>e. \<not> stale now projects components e) fs"
    by (intro filter_cong) (auto simp: glob_vcs_def)
  finally show ?thesis by (simp add: cleanup_stale_repos_def)
qed

text \<open>
  Claim C8, as amended. One run of \<open>cleanup_stale_repos\<close> removes an entry of the two-level
  layout if and only if it is a directory, its modification time is at least 24 hours
  before the clock reading, and no component with its own repository has the slug and
  the project slug that the path gives. Read-only files do not stop the removal. Nothing
  is added. The names of the entries are distinct and such as a path component can be.
\<close>

theorem cleanup_stale_repos_removes_iff:
  assumes "valid_prefix prefix"
    and "\<forall>e \<in> set fs. valid_entry e"
    and "distinct (map (\<lambda>e. (project_dir e, component_dir e)) fs)"
    and "e \<in> set fs"
  shows "(e \<notin> set (cleanup_stale_repos prefix now projects components fs) \<longleftrightarrow>
            is_dir e \<and> now - mtime e \<ge> seconds 86400 \<and>
            \<not> (\<exists>c \<in> set (with_repo components). slug c = component_dir e \<and>
                 (\<exists>p \<in> set projects. project_pk p = project c \<and> project_slug p = project_dir e))) \<and>
         set (cleanup_stale_repos prefix now projects components fs) \<subseteq> set fs"
  unfolding cleanup_stale_repos_eq [OF assms(1,2,3)]
  using assms(4) by (auto simp: stale_def)

text \<open>
  The scenario of the spec: a directory two days old with no matching component is
  removed, the same directory one hour old is not, and neither is the old one when a
  component matches.
\<close>

theorem cleanup_stale_repos_removes_iff_witness:
  "checkout ''acme'' ''core'' 0 \<notin> set (cleanup_stale_repos ''projects'' (seconds 172800) [acme] []
      [checkout ''acme'' ''core'' 0]) \<and>
   checkout ''acme'' ''core'' (seconds 169200) \<in> set (cleanup_stale_repos ''projects'' (seconds 172800)
      [acme] [] [checkout ''acme'' ''core'' (seconds 169200)]) \<and>
   checkout ''acme'' ''core'' 0 \<in> set (cleanup_stale_repos ''projects'' (seconds 172800) [acme] [core]
      [checkout ''acme'' ''core'' 0])"
proof -
  have p: "valid_prefix ''projects''" by (simp add: valid_prefix_def)
  have v: "\<forall>e \<in> set [checkout ''acme'' ''core'' t]. valid_entry e" for t
    by (simp add: valid_entry_def valid_name_def checkout_def)
  have d: "distinct (map (\<lambda>e. (project_dir e, component_dir e)) [checkout ''acme'' ''core'' t])" for t
    by simp
  have i: "checkout ''acme'' ''core'' t \<in> set [checkout ''acme'' ''core'' t]" for t
    by simp
  note inst = cleanup_stale_repos_removes_iff [OF p v d i]
  from inst [of 0 "seconds 172800" "[acme]" "[]"]
    inst [of "seconds 169200" "seconds 172800" "[acme]" "[]"]
    inst [of 0 "seconds 172800" "[acme]" "[core]"]
  show ?thesis
    by (simp add: checkout_def seconds_def with_repo_def acme_def core_def)
qed

text \<open>
  The claim as stated asks for more than 24 hours and for no live component. A directory
  modified exactly 24 hours before the clock reading is removed, and so is an old
  directory whose names match a component that is linked to another repository.
\<close>

theorem cleanup_stale_repos_counterexample:
  "cleanup_stale_repos ''projects'' (seconds 172800) [acme] []
     [checkout ''acme'' ''core'' (seconds 86400)] = [] \<and>
   \<not> seconds 172800 - seconds 86400 > seconds 86400 \<and>
   cleanup_stale_repos ''projects'' (seconds 172800) [acme] [core\<lparr>is_repo_link := True\<rparr>]
     [checkout ''acme'' ''core'' 0] = [] \<and>
   slug (core\<lparr>is_repo_link := True\<rparr>) = ''core'' \<and>
   project (core\<lparr>is_repo_link := True\<rparr>) = project_pk acme \<and> project_slug acme = ''acme''"
  by (simp add: cleanup_stale_repos_def glob_vcs_def entry_path_def os_path_join_def
      os_path_split_def matching_components_def with_repo_def rmtree_remove_readonly_def
      checkout_def seconds_def acme_def core_def)

end
